theory Spec2Isabelle
  imports Main "HOL-Library.AList" "HOL-Library.List_Lexorder" "HOL-Library.Char_ord"
begin

section \<open>Text, compiled patterns and Python sets\<close>

text \<open>
  A Python \<open>str\<close> is modelled as a HOL \<open>string\<close>, one \<open>char\<close> per code point, so the
  model covers texts whose code points are below 256. \<open>len\<close> is \<open>length\<close>.

  A compiled regular expression is used by the scripts only through
  \<open>pattern.search(s)\<close> in a boolean position, so a compiled pattern is the predicate
  "search finds a match somewhere in \<open>s\<close>".
\<close>

type_synonym pattern = "string \<Rightarrow> bool"

definition search :: "pattern \<Rightarrow> string \<Rightarrow> bool" where
  "search p s = p s"

text \<open>
  \<open>\w\<close> of a \<open>str\<close> pattern: the alphanumeric code points and the underscore
  (here: those below 256).
\<close>

definition is_word :: "char \<Rightarrow> bool" where
  "is_word c =
     (let n = (of_char c :: nat)
      in (48 \<le> n \<and> n \<le> 57) \<or> (65 \<le> n \<and> n \<le> 90) \<or> n = 95 \<or> (97 \<le> n \<and> n \<le> 122)
         \<or> n = 170 \<or> n = 178 \<or> n = 179 \<or> n = 181 \<or> n = 185 \<or> n = 186
         \<or> (188 \<le> n \<and> n \<le> 190) \<or> (192 \<le> n \<and> n \<le> 214)
         \<or> (216 \<le> n \<and> n \<le> 246) \<or> 248 \<le> n)"

text \<open>
  Under \<open>re.IGNORECASE\<close> a literal ASCII letter of the pattern matches exactly its two
  ASCII cases among the code points below 256; any other ASCII literal matches itself.
\<close>

definition ascii_lower :: "char \<Rightarrow> char" where
  "ascii_lower c =
     (let n = (of_char c :: nat)
      in if 65 \<le> n \<and> n \<le> 90 then char_of (n + 32) else c)"

text \<open>
  \<open>\b\<close> holds between two positions when exactly one of the neighbouring characters is a
  word character; the start and the end of the text count as non-word. \<open>prev\<close> says
  whether the character before the position is a word character.
\<close>

definition at_boundary :: "bool \<Rightarrow> string \<Rightarrow> bool" where
  "at_boundary prev rest = (prev \<noteq> (case rest of [] \<Rightarrow> False | c # _ \<Rightarrow> is_word c))"

text \<open>A literal alternative followed by the closing \<open>\b\<close>, tried at the head of the text.\<close>

fun match_literal :: "string \<Rightarrow> bool \<Rightarrow> string \<Rightarrow> bool" where
  "match_literal [] prev rest = at_boundary prev rest"
| "match_literal (w # ws) prev [] = False"
| "match_literal (w # ws) prev (c # cs) =
     (ascii_lower w = ascii_lower c \<and> match_literal ws (is_word c) cs)"

text \<open>
  \<open>re.compile(r'\b(?:a1|...|an)\b', re.IGNORECASE).search(s)\<close> for literal
  alternatives \<open>a1 ... an\<close>: some position of \<open>s\<close> is a word boundary at which some
  alternative matches and is followed by a word boundary.
\<close>

fun search_words :: "string list \<Rightarrow> bool \<Rightarrow> string \<Rightarrow> bool" where
  "search_words alts prev [] =
     (at_boundary prev [] \<and> list_ex (\<lambda>w. match_literal w prev []) alts)"
| "search_words alts prev (c # cs) =
     ((at_boundary prev (c # cs) \<and> list_ex (\<lambda>w. match_literal w prev (c # cs)) alts)
      \<or> search_words alts (is_word c) cs)"

definition word_pattern :: "string list \<Rightarrow> pattern" where
  "word_pattern alts s = search_words alts False s"

text \<open>The three fixed suppression patterns of \<open>Population_identified_keywords.py\<close>.\<close>

definition negation_pattern :: pattern where
  "negation_pattern =
     word_pattern [''no'', ''not'', ''never'', ''denies'', ''without'', ''negative'',
                   ''free of'', ''absent'', ''ruled out'']"

definition context_filter_pattern :: pattern where
  "context_filter_pattern =
     word_pattern [''if'', ''recommend'', ''suggest'', ''advise'', ''should'', ''limiting'',
                   ''avoid'', ''consider'', ''encourage'', ''abstain'', ''family member'',
                   ''family history'', ''mother'', ''father'', ''parent'', ''sibling'',
                   ''relative'']"

definition legal_admin_filter_pattern :: pattern where
  "legal_admin_filter_pattern =
     word_pattern [''authorization'', ''release'', ''consent'', ''information'',
                   ''disclosure'', ''permission'', ''record'', ''agreement'', ''form'',
                   ''policy'', ''AUDIT'']"

text \<open>
  \<open>re.split(r'[.!?;:\n]+', text)\<close>: the text is cut at every maximal run of terminator
  characters; a run at the very start or end leaves an empty first or last piece.
\<close>

definition is_terminator :: "char \<Rightarrow> bool" where
  "is_terminator c =
     (c = CHR ''.'' \<or> c = CHR ''!'' \<or> c = CHR ''?'' \<or> c = CHR '';'' \<or> c = CHR '':''
      \<or> c = CHR 0x0A)"

function re_split :: "string \<Rightarrow> string list" where
  "re_split [] = [[]]"
| "re_split (c # cs) =
     (if is_terminator c then [] # re_split (dropWhile is_terminator cs)
      else (case re_split cs of
              [] \<Rightarrow> [[c]]
            | p # ps \<Rightarrow> (c # p) # ps))"
  by pat_completeness auto
termination
  by (relation "measure length") (auto simp: length_dropWhile_le less_Suc_eq_le)

text \<open>\<open>str.strip()\<close>: leading and trailing whitespace removed (\<open>str.isspace\<close>).\<close>

definition is_space :: "char \<Rightarrow> bool" where
  "is_space c =
     (let n = (of_char c :: nat)
      in (9 \<le> n \<and> n \<le> 13) \<or> (28 \<le> n \<and> n \<le> 32) \<or> n = 133 \<or> n = 160)"

definition strip :: "string \<Rightarrow> string" where
  "strip s = rev (dropWhile is_space (rev (dropWhile is_space s)))"

section \<open>Sentence classifier\<close>

text \<open>
  \<open>check_sentence_for_keywords\<close>. \<open>matched_roots\<close> is a Python \<open>set\<close>: \<open>set()\<close> is
  \<open>{}\<close>, \<open>add\<close> is \<open>insert\<close>, \<open>len\<close> is \<open>card\<close>.
\<close>

definition check_sentence_for_keywords ::
  "string \<Rightarrow> (pattern \<times> string) list \<Rightarrow> pattern \<Rightarrow> pattern \<Rightarrow> pattern \<Rightarrow> string set \<times> bool"
where
  "check_sentence_for_keywords sentence aud_patterns negation context_filter legal_admin_filter =
     (let matched_roots = {}
      in if search negation sentence then (matched_roots, False)
         else if search context_filter sentence then (matched_roots, False)
         else if search legal_admin_filter sentence then (matched_roots, False)
         else
           let matched_roots =
                 fold (\<lambda>(pattern, root) acc. if search pattern sentence then insert root acc else acc)
                      aud_patterns matched_roots
           in (matched_roots, 0 < card matched_roots))"

section \<open>Note classifier\<close>

text \<open>
  A \<open>REPORT_TEXT\<close> value is dynamically typed: missing (\<open>None\<close> or NaN), a string, or
  another scalar, of which a number stands here. An exception is the value \<open>Exn\<close> with
  its message.
\<close>

datatype cell = Null | Str string | Num int

datatype exn = Exn (message: string)

definition TypeError :: exn where
  "TypeError = Exn ''expected string or bytes-like object''"

text \<open>
  Python gives a \<open>set\<close> no iteration order: CPython walks the hash table, and the hashes
  of strings are salted anew in every interpreter run. \<open>list(all_aud_roots)\<close> is therefore
  \<open>set_iter all_aud_roots\<close> for a parameter \<open>set_iter\<close>, of which only
  \<open>iteration_law\<close> is known: every element is listed exactly once.
\<close>

definition iteration_law :: "(string set \<Rightarrow> string list) \<Rightarrow> bool" where
  "iteration_law set_iter = (\<forall>S. finite S \<longrightarrow> set (set_iter S) = S \<and> distinct (set_iter S))"

text \<open>One pass of the loop over \<open>sentences\<close>, with its \<open>continue\<close> for short sentences.\<close>

definition sentence_step ::
  "(pattern \<times> string) list \<Rightarrow> pattern \<Rightarrow> pattern \<Rightarrow> pattern \<Rightarrow> string
   \<Rightarrow> string set \<times> string list \<Rightarrow> string set \<times> string list"
where
  "sentence_step aud_patterns negation context_filter legal_admin_filter raw acc =
     (case acc of (all_aud_roots, matched_sentences) \<Rightarrow>
        let sentence = strip raw
        in if sentence = [] \<or> length sentence < 10 then (all_aud_roots, matched_sentences)
           else
             (case check_sentence_for_keywords sentence aud_patterns negation context_filter
                     legal_admin_filter of
                (roots, is_valid) \<Rightarrow>
                  if is_valid \<and> roots \<noteq> {}
                  then (all_aud_roots \<union> roots, matched_sentences @ [sentence])
                  else (all_aud_roots, matched_sentences)))"

text \<open>
  \<open>process_note_text\<close>. \<open>pd.isna(text) or not text\<close> holds of a missing value, of the
  empty string and of the number zero; \<open>re.split\<close> raises \<open>TypeError\<close> on a number.
\<close>

definition process_note_text ::
  "(string set \<Rightarrow> string list) \<Rightarrow> cell \<Rightarrow> (pattern \<times> string) list \<Rightarrow> pattern \<Rightarrow> pattern
   \<Rightarrow> pattern \<Rightarrow> exn + (string list \<times> nat \<times> string list)"
where
  "process_note_text set_iter text aud_patterns negation context_filter legal_admin_filter =
     (case text of
        Null \<Rightarrow> Inr ([], 0, [])
      | Num n \<Rightarrow> if n = 0 then Inr ([], 0, []) else Inl TypeError
      | Str t \<Rightarrow>
          if t = [] then Inr ([], 0, [])
          else
            let sentences = re_split t
            in (case fold (sentence_step aud_patterns negation context_filter legal_admin_filter)
                       sentences ({}, []) of
                  (all_aud_roots, matched_sentences) \<Rightarrow>
                    Inr (set_iter all_aud_roots, card all_aud_roots, matched_sentences)))"

section \<open>Partition processor\<close>

text \<open>\<open>os.path.basename\<close>, \<open>os.path.dirname\<close> and the two-argument \<open>os.path.join\<close> (POSIX).\<close>

definition basename :: "string \<Rightarrow> string" where
  "basename p = rev (takeWhile (\<lambda>c. c \<noteq> CHR ''/'') (rev p))"

definition dirname :: "string \<Rightarrow> string" where
  "dirname p =
     (let head = rev (dropWhile (\<lambda>c. c \<noteq> CHR ''/'') (rev p))
      in if head \<noteq> [] \<and> \<not> list_all (\<lambda>c. c = CHR ''/'') head
         then rev (dropWhile (\<lambda>c. c = CHR ''/'') (rev head))
         else head)"

definition path_join :: "string \<Rightarrow> string \<Rightarrow> string" where
  "path_join a b =
     (if b \<noteq> [] \<and> hd b = CHR ''/'' then b
      else if a = [] \<or> last a = CHR ''/'' then a @ b
      else a @ ''/'' @ b)"

definition results_path :: string where
  "results_path = ''results/''"

definition intermediate_path :: string where
  "intermediate_path = ''results/intermediate_keywords/''"

text \<open>A row of a parquet file of notes, and a row of the results.\<close>

record note_row =
  OMOP_PERSON_ID :: int
  ENCOUNTER_ID :: int
  PHYSIOLOGIC_TIME :: string
  REPORT_TEXT :: cell

record result_row =
  person_id :: int
  note_id :: int
  note_date :: string
  aud_roots :: "string list"
  aud_roots_count :: nat
  matched_sentences :: "string list"

text \<open>
  What \<open>pd.read_csv\<close> finds in a CSV file: a table of rows, or content it cannot parse
  (it raises, for instance on a file of zero bytes).
\<close>

datatype csv = Table "result_row list" | Unparsable

text \<open>
  What the scripts take from outside:
  \<^item> \<open>iter_order\<close>, the iteration order of sets of this interpreter run;
  \<^item> \<open>aud_patterns\<close>, the compiled patterns of the keyword CSV (not part of the
    repository's source), each with its root;
  \<^item> \<open>parquet\<close>, what \<open>pd.read_parquet\<close> returns or raises for a path;
  \<^item> \<open>csv_fault\<close>, whether writing a CSV file to a path fails, and where: \<open>to_csv\<close>
    opens the path itself for writing and writes the rows in order, so what it leaves at
    the path when it raises is told by a \<open>cut\<close>.
\<close>

text \<open>
  Where a write fails: the path could not be opened and no file is made; or the file
  was opened and nothing reached it, which leaves a file of zero bytes that
  \<open>pd.read_csv\<close> cannot parse (a full disk); or the header and the first \<open>k\<close> rows
  reached the file (a limit on the file size, the end of the process).
\<close>

datatype cut = Not_opened | Nothing_written | Rows_written nat

record env =
  iter_order :: "string set \<Rightarrow> string list"
  aud_patterns :: "(pattern \<times> string) list"
  parquet :: "string \<Rightarrow> exn + note_row list"
  csv_fault :: "string \<Rightarrow> (exn \<times> cut) option"

text \<open>
  The state: the files under \<open>results/\<close> in directory order, and the log of the parquet
  files read so far.
\<close>

record state =
  files :: "(string \<times> csv) list"
  reads :: "string list"

definition path_exists :: "string \<Rightarrow> state \<Rightarrow> bool" where
  "path_exists p st = (map_of (files st) p \<noteq> None)"

definition to_csv :: "env \<Rightarrow> string \<Rightarrow> result_row list \<Rightarrow> state \<Rightarrow> exn option \<times> state" where
  "to_csv e p rows st =
     (case csv_fault e p of
        None \<Rightarrow> (None, st\<lparr>files := AList.update p (Table rows) (files st)\<rparr>)
      | Some (x, Not_opened) \<Rightarrow> (Some x, st)
      | Some (x, Nothing_written) \<Rightarrow>
          (Some x, st\<lparr>files := AList.update p Unparsable (files st)\<rparr>)
      | Some (x, Rows_written k) \<Rightarrow>
          (Some x, st\<lparr>files := AList.update p (Table (take k rows)) (files st)\<rparr>))"

text \<open>
  The loop of \<open>process_single_parquet\<close> over the rows of the data frame; an exception
  leaves the loop. The suppression patterns are the module's globals.
\<close>

fun note_loop ::
  "(string set \<Rightarrow> string list) \<Rightarrow> (pattern \<times> string) list \<Rightarrow> note_row list
   \<Rightarrow> result_row list \<times> nat \<Rightarrow> exn + (result_row list \<times> nat)"
where
  "note_loop order pats [] (results, matched_count) = Inr (results, matched_count)"
| "note_loop order pats (row # df) (results, matched_count) =
     (case process_note_text order (REPORT_TEXT row) pats negation_pattern
             context_filter_pattern legal_admin_filter_pattern of
        Inl x \<Rightarrow> Inl x
      | Inr (roots, roots_count, sentences) \<Rightarrow>
          if roots_count > 0
          then note_loop order pats df
                 (results @ [\<lparr>person_id = OMOP_PERSON_ID row, note_id = ENCOUNTER_ID row,
                               note_date = PHYSIOLOGIC_TIME row, aud_roots = roots,
                               aud_roots_count = roots_count, matched_sentences = sentences\<rparr>],
                  matched_count + 1)
          else note_loop order pats df (results, matched_count))"

text \<open>
  The returned tuple \<open>(file_name, num_matches, num_notes, error)\<close>: \<open>num_matches\<close> is a
  count or the string \<open>'SKIPPED'\<close>.
\<close>

datatype matches = Matches nat | SKIPPED

type_synonym summary = "string \<times> matches \<times> nat \<times> string option"

definition failed :: "string \<Rightarrow> exn \<Rightarrow> summary" where
  "failed file_name x = (file_name, Matches 0, 0, Some (''Error: '' @ message x))"

definition output_file_of :: "string \<Rightarrow> string" where
  "output_file_of file_path =
     path_join intermediate_path (basename (dirname file_path) @ ''_results.csv'')"

definition process_single_parquet :: "env \<Rightarrow> string \<times> nat \<times> nat \<Rightarrow> state \<Rightarrow> summary \<times> state" where
  "process_single_parquet e args st =
     (case args of (file_path, file_idx, total_files) \<Rightarrow>
        let file_name = basename (dirname file_path);
            output_file = output_file_of file_path
        in if path_exists output_file st then ((file_name, SKIPPED, 0, None), st)
           else
             let st1 = st\<lparr>reads := reads st @ [file_path]\<rparr>
             in (case parquet e file_path of
                   Inl x \<Rightarrow> (failed file_name x, st1)
                 | Inr df \<Rightarrow>
                     let total_notes = length df
                     in (case note_loop (iter_order e) (aud_patterns e) df ([], 0) of
                           Inl x \<Rightarrow> (failed file_name x, st1)
                         | Inr (results, matched_count) \<Rightarrow>
                             if results \<noteq> []
                             then (case to_csv e output_file results st1 of
                                     (Some x, st2) \<Rightarrow> (failed file_name x, st2)
                                   | (None, st2) \<Rightarrow>
                                       ((file_name, Matches matched_count, total_notes, None), st2))
                             else ((file_name, Matches matched_count, total_notes, None), st1))))"

section \<open>Corpus driver and merge\<close>

record report =
  processed_count :: nat
  skipped_count :: nat
  total_matches :: nat
  total_notes_processed :: nat
  errors :: "string list"

definition report0 :: report where
  "report0 = \<lparr>processed_count = 0, skipped_count = 0, total_matches = 0,
              total_notes_processed = 0, errors = []\<rparr>"

definition file_args :: "string list \<Rightarrow> (string \<times> nat \<times> nat) list" where
  "file_args parquet_files =
     map (\<lambda>(idx, f). (f, idx, length parquet_files)) (enumerate 0 parquet_files)"

text \<open>One pass of the loop \<open>for args in file_args\<close>.\<close>

definition driver_step :: "env \<Rightarrow> string \<times> nat \<times> nat \<Rightarrow> report \<times> state \<Rightarrow> report \<times> state" where
  "driver_step e args acc =
     (case acc of (rep, st) \<Rightarrow>
        (case process_single_parquet e args st of
           ((file_name, num_matches, num_notes, error), st') \<Rightarrow>
             (case error of
                Some msg \<Rightarrow> (rep\<lparr>errors := errors rep @ [file_name @ '': '' @ msg]\<rparr>, st')
              | None \<Rightarrow>
                  (case num_matches of
                     SKIPPED \<Rightarrow> (rep\<lparr>skipped_count := skipped_count rep + 1\<rparr>, st')
                   | Matches n \<Rightarrow>
                       (rep\<lparr>processed_count := processed_count rep + 1,
                            total_matches := total_matches rep + n,
                            total_notes_processed := total_notes_processed rep + num_notes\<rparr>,
                        st')))))"

text \<open>
  The driver loop over \<open>parquet_files\<close>, the sorted result of
  \<open>glob(notes_dir + '*/part-*.parquet')\<close>.
\<close>

definition run_driver :: "env \<Rightarrow> string list \<Rightarrow> state \<Rightarrow> report \<times> state" where
  "run_driver e parquet_files st = fold (driver_step e) (file_args parquet_files) (report0, st)"

text \<open>
  \<open>glob(intermediate_path + '*_results.csv')\<close>: the files directly in the intermediate
  directory whose name ends in \<open>_results.csv\<close> and does not start with a dot.
\<close>

definition is_result_file :: "string \<Rightarrow> bool" where
  "is_result_file p =
     (let n = length intermediate_path; name = drop n p
      in take n p = intermediate_path \<and> CHR ''/'' \<notin> set name \<and> 12 \<le> length name
         \<and> hd name \<noteq> CHR ''.'' \<and> drop (length name - 12) name = ''_results.csv'')"

definition glob_results :: "state \<Rightarrow> string list" where
  "glob_results st = filter is_result_file (map fst (files st))"

text \<open>
  The merge section at module level. Its three ways to end normally are told apart by
  what it prints; only the final \<open>to_csv\<close>, outside any \<open>try\<close>, can raise.
\<close>

datatype merge_outcome = Final_saved "result_row list" | No_valid_results | No_results_found

definition read_all :: "state \<Rightarrow> string list \<Rightarrow> result_row list list" where
  "read_all st fs =
     concat (map (\<lambda>f. case map_of (files st) f of Some (Table rows) \<Rightarrow> [rows] | _ \<Rightarrow> []) fs)"

definition merge_results :: "env \<Rightarrow> state \<Rightarrow> (exn + merge_outcome) \<times> state" where
  "merge_results e st =
     (let all_intermediate_files = glob_results st
      in if all_intermediate_files \<noteq> []
         then
           let all_results = read_all st all_intermediate_files
           in if all_results \<noteq> []
              then
                let final_df = concat all_results;
                    output_path = results_path @ ''aud_notes_keywords.csv''
                in (case to_csv e output_path final_df st of
                      (Some x, st') \<Rightarrow> (Inl x, st')
                    | (None, st') \<Rightarrow> (Inr (Final_saved final_df), st'))
              else (Inr No_valid_results, st)
         else (Inr No_results_found, st))"

section \<open>Structured-code cohort filter\<close>

text \<open>
  A row of \<open>aud_occurrence\<close> after the left merge with the visits: \<open>visit_concept_id\<close> is
  missing when the visit is unknown.
\<close>

record occurrence_row =
  occ_person_id :: int
  condition_source_value :: string
  visit_occurrence_id :: int
  visit_concept_id :: "int option"

datatype category = inpatient | outpatient

text \<open>The function mapped over \<open>visit_concept_id\<close>.\<close>

definition visit_category :: "int option \<Rightarrow> category option" where
  "visit_category x =
     (case x of
        None \<Rightarrow> None
      | Some v \<Rightarrow> if v \<in> set [9201] then Some inpatient
                  else if v \<in> set [9202] then Some outpatient else None)"

record count_row =
  cnt_person_id :: int
  inpatient_count :: nat
  outpatient_count :: nat

text \<open>
  \<open>calculate_visit_counts\<close>: rows without a category are dropped, the others are grouped
  by person (in ascending order of \<open>person_id\<close>) and counted by category, a category
  without rows counting 0.
\<close>

definition calculate_visit_counts :: "occurrence_row list \<Rightarrow> count_row list" where
  "calculate_visit_counts aud_occurrence =
     (let kept = filter (\<lambda>r. visit_category (visit_concept_id r) \<noteq> None) aud_occurrence;
          size_of = (\<lambda>p c. length (filter (\<lambda>r. occ_person_id r = p
                                                \<and> visit_category (visit_concept_id r) = Some c) kept))
      in map (\<lambda>p. \<lparr>cnt_person_id = p, inpatient_count = size_of p inpatient,
                    outpatient_count = size_of p outpatient\<rparr>)
             (sort (remdups (map occ_person_id kept))))"

definition filter_patients_by_visits :: "count_row list \<Rightarrow> count_row list" where
  "filter_patients_by_visits patient_counts =
     filter (\<lambda>r. inpatient_count r \<ge> 1 \<or> outpatient_count r \<ge> 2) patient_counts"

section \<open>Notions used in the statements\<close>

text \<open>
  The sentences of a note that reach the sentence classifier: the pieces of the split,
  stripped, of length 10 or more.
\<close>

definition classified_sentences :: "string \<Rightarrow> string list" where
  "classified_sentences t = filter (\<lambda>s. 10 \<le> length s) (map strip (re_split t))"

text \<open>The result rows one note contributes: one row when its count is positive, else none.\<close>

definition rows_of_note ::
  "(string set \<Rightarrow> string list) \<Rightarrow> (pattern \<times> string) list \<Rightarrow> note_row \<Rightarrow> result_row list"
where
  "rows_of_note order pats row =
     (case process_note_text order (REPORT_TEXT row) pats negation_pattern
             context_filter_pattern legal_admin_filter_pattern of
        Inl x \<Rightarrow> []
      | Inr (roots, roots_count, sentences) \<Rightarrow>
          if roots_count > 0
          then [\<lparr>person_id = OMOP_PERSON_ID row, note_id = ENCOUNTER_ID row,
                 note_date = PHYSIOLOGIC_TIME row, aud_roots = roots,
                 aud_roots_count = roots_count, matched_sentences = sentences\<rparr>]
          else [])"

text \<open>The number of rows of a person with a given \<open>visit_concept_id\<close>.\<close>

definition rows_with :: "int \<Rightarrow> int \<Rightarrow> occurrence_row list \<Rightarrow> nat" where
  "rows_with p v rows =
     length (filter (\<lambda>r. occ_person_id r = p \<and> visit_concept_id r = Some v) rows)"

text \<open>
  The number of visits of a person with a given \<open>visit_concept_id\<close>: the distinct
  \<open>visit_occurrence_id\<close>s among the person's rows with that id.
\<close>

definition visits_with :: "int \<Rightarrow> int \<Rightarrow> occurrence_row list \<Rightarrow> nat" where
  "visits_with p v rows =
     length (remdups (map visit_occurrence_id
       (filter (\<lambda>r. occ_person_id r = p \<and> visit_concept_id r = Some v) rows)))"

section \<open>Example data\<close>

definition two_patterns :: "(pattern \<times> string) list" where
  "two_patterns = [(word_pattern [''heavy drinking''], ''heavy_drinking''),
                   (word_pattern [''alcoholism''], ''alcoholism'')]"

definition note1 :: note_row where
  "note1 = \<lparr>OMOP_PERSON_ID = 1, ENCOUNTER_ID = 101, PHYSIOLOGIC_TIME = ''2020-01-01'',
            REPORT_TEXT = Str ''reports heavy drinking''\<rparr>"

definition note2 :: note_row where
  "note2 = \<lparr>OMOP_PERSON_ID = 2, ENCOUNTER_ID = 102, PHYSIOLOGIC_TIME = ''2020-01-02'',
            REPORT_TEXT = Str ''alcoholism noted''\<rparr>"

definition note3 :: note_row where
  "note3 = \<lparr>OMOP_PERSON_ID = 3, ENCOUNTER_ID = 103, PHYSIOLOGIC_TIME = ''2020-01-03'',
            REPORT_TEXT = Str ''she denies heavy drinking''\<rparr>"

definition row1 :: result_row where
  "row1 = \<lparr>person_id = 1, note_id = 101, note_date = ''2020-01-01'',
           aud_roots = [''heavy_drinking''], aud_roots_count = 1,
           matched_sentences = [''reports heavy drinking'']\<rparr>"

definition row2 :: result_row where
  "row2 = \<lparr>person_id = 2, note_id = 102, note_date = ''2020-01-02'',
           aud_roots = [''alcoholism''], aud_roots_count = 1,
           matched_sentences = [''alcoholism noted'']\<rparr>"

text \<open>
  Two corpora: one directory with one parquet file of two notes, and one directory with
  two parquet files of one note each.
\<close>

definition one_file :: "string \<Rightarrow> exn + note_row list" where
  "one_file p =
     (if p = ''/notes/d1/part-0.parquet'' then Inr [note1, note2]
      else Inl (Exn ''No such file''))"

definition two_files :: "string \<Rightarrow> exn + note_row list" where
  "two_files p =
     (if p = ''/notes/d1/part-0.parquet'' then Inr [note1]
      else if p = ''/notes/d1/part-1.parquet'' then Inr [note2]
      else Inl (Exn ''No such file''))"

text \<open>
  A write that breaks off after the first row at a limit on the file size, a write on a
  full disk, and a write without faults.
\<close>

definition size_limit :: "string \<Rightarrow> (exn \<times> cut) option" where
  "size_limit p = Some (Exn ''[Errno 27] File too large'', Rows_written 1)"

definition full_disk :: "string \<Rightarrow> (exn \<times> cut) option" where
  "full_disk p = Some (Exn ''[Errno 28] No space left on device'', Nothing_written)"

definition no_fault :: "string \<Rightarrow> (exn \<times> cut) option" where
  "no_fault p = None"

definition example_env ::
  "(string \<Rightarrow> exn + note_row list) \<Rightarrow> (string \<Rightarrow> (exn \<times> cut) option) \<Rightarrow> env" where
  "example_env pq fault =
     \<lparr>iter_order = sorted_list_of_set, aud_patterns = two_patterns, parquet = pq,
      csv_fault = fault\<rparr>"

definition empty_state :: state where
  "empty_state = \<lparr>files = [], reads = []\<rparr>"

definition partial_state :: state where
  "partial_state =
     \<lparr>files = [(''results/intermediate_keywords/d1_results.csv'', Table [row1])],
      reads = [''/notes/d1/part-0.parquet'']\<rparr>"

definition full_state :: state where
  "full_state =
     \<lparr>files = [(''results/intermediate_keywords/d1_results.csv'', Table [row1, row2])],
      reads = [''/notes/d1/part-0.parquet'']\<rparr>"

definition empty_file_state :: state where
  "empty_file_state =
     \<lparr>files = [(''results/intermediate_keywords/d1_results.csv'', Unparsable)],
      reads = [''/notes/d1/part-0.parquet'']\<rparr>"

definition other_state :: state where
  "other_state = \<lparr>files = [(''results/aud_patients_ICD_AUD_rule.csv'', Unparsable)], reads = []\<rparr>"

text \<open>One person with two diagnoses recorded at one and the same outpatient visit.\<close>

definition same_visit_rows :: "occurrence_row list" where
  "same_visit_rows =
     [\<lparr>occ_person_id = 2, condition_source_value = ''ICD10^^F10.20^'',
       visit_occurrence_id = 21, visit_concept_id = Some 9202\<rparr>,
      \<lparr>occ_person_id = 2, condition_source_value = ''ICD10^^F10.239^'',
       visit_occurrence_id = 21, visit_concept_id = Some 9202\<rparr>]"

definition example_occurrences :: "occurrence_row list" where
  "example_occurrences =
     [\<lparr>occ_person_id = 1, condition_source_value = ''ICD10^^F10.20^'',
       visit_occurrence_id = 11, visit_concept_id = Some 9203\<rparr>,
      \<lparr>occ_person_id = 1, condition_source_value = ''ICD10^^F10.10^'',
       visit_occurrence_id = 12, visit_concept_id = Some 9203\<rparr>,
      \<lparr>occ_person_id = 2, condition_source_value = ''ICD10^^F10.20^'',
       visit_occurrence_id = 21, visit_concept_id = Some 9202\<rparr>,
      \<lparr>occ_person_id = 2, condition_source_value = ''ICD10^^F10.239^'',
       visit_occurrence_id = 21, visit_concept_id = Some 9202\<rparr>,
      \<lparr>occ_person_id = 3, condition_source_value = ''ICD10^^F10.20^'',
       visit_occurrence_id = 31, visit_concept_id = Some 9202\<rparr>,
      \<lparr>occ_person_id = 4, condition_source_value = ''ICD9^^303.90^'',
       visit_occurrence_id = 41, visit_concept_id = Some 9201\<rparr>,
      \<lparr>occ_person_id = 5, condition_source_value = ''ICD9^^303.90^'',
       visit_occurrence_id = 51, visit_concept_id = None\<rparr>]"


section \<open>Properties of the sentence classifier\<close>

lemma fold_add_roots:
  "fold (\<lambda>(pattern, root) acc. if search pattern s then insert root acc else acc) pats A =
     A \<union> {root. \<exists>pattern. (pattern, root) \<in> set pats \<and> search pattern s}"
proof (induction pats arbitrary: A)
  case Nil
  show ?case by simp
next
  case (Cons pr pats)
  obtain p r where pr: "pr = (p, r)" by (cases pr)
  show ?case
    unfolding pr by (cases "search p s") (auto simp: Cons.IH)
qed

lemma finite_matching_roots:
  "finite {root. \<exists>pattern. (pattern, root) \<in> set pats \<and> search pattern s}"
proof -
  have "{root. \<exists>pattern. (pattern, root) \<in> set pats \<and> search pattern s} \<subseteq> snd ` set pats"
    by force
  then show ?thesis by (rule finite_subset) simp
qed

text \<open>Searches of the fixed patterns in two sentences, used as examples below.\<close>

lemma denies_sentence:
  "search negation_pattern ''She DENIES heavy drinking''"
  by code_simp

lemma reports_sentence:
  "\<not> search negation_pattern ''reports Heavy Drinking''"
  "\<not> search context_filter_pattern ''reports Heavy Drinking''"
  "\<not> search legal_admin_filter_pattern ''reports Heavy Drinking''"
  "search (word_pattern [''heavy drinking'']) ''reports Heavy Drinking''"
  "\<not> search (word_pattern [''etoh'']) ''reports Heavy Drinking''"
  by code_simp+

text \<open>
  C1. For every sentence and every choice of patterns, \<open>check_sentence_for_keywords\<close>
  returns the empty set and \<open>False\<close> as soon as the negation, the context or the
  legal/administrative pattern is found in the sentence, whatever the keyword patterns
  would find; otherwise it returns the set of the roots of all keyword patterns found in
  the sentence, and \<open>is_valid\<close> says whether that set is non-empty. (The keyword patterns
  are the caller's compiled patterns; the three fixed patterns are compiled with
  \<open>re.IGNORECASE\<close>.)
\<close>

theorem check_sentence_for_keywords_verdict:
  "check_sentence_for_keywords s pats neg ctx legal =
     (if search neg s \<or> search ctx s \<or> search legal s then ({}, False)
      else ({root. \<exists>pattern. (pattern, root) \<in> set pats \<and> search pattern s},
            {root. \<exists>pattern. (pattern, root) \<in> set pats \<and> search pattern s} \<noteq> {}))"
  using finite_matching_roots [of pats s]
  by (simp add: check_sentence_for_keywords_def fold_add_roots card_gt_0_iff del: insert_iff)

theorem check_sentence_for_keywords_verdict_witness:
  "check_sentence_for_keywords ''She DENIES heavy drinking''
      [(word_pattern [''heavy drinking''], ''heavy_drinking'')]
      negation_pattern context_filter_pattern legal_admin_filter_pattern = ({}, False)
   \<and> check_sentence_for_keywords ''reports Heavy Drinking''
      [(word_pattern [''etoh''], ''etoh''), (word_pattern [''heavy drinking''], ''heavy_drinking'')]
      negation_pattern context_filter_pattern legal_admin_filter_pattern
     = ({''heavy_drinking''}, True)"
proof -
  have c: "{root. \<exists>pattern. (pattern, root) \<in> set [(word_pattern [''etoh''], ''etoh''),
                (word_pattern [''heavy drinking''], ''heavy_drinking'')]
              \<and> search pattern ''reports Heavy Drinking''} = {''heavy_drinking''}"
    using reports_sentence by auto
  show ?thesis
    using check_sentence_for_keywords_verdict [of "''She DENIES heavy drinking''"
        "[(word_pattern [''heavy drinking''], ''heavy_drinking'')]"
        negation_pattern context_filter_pattern legal_admin_filter_pattern]
      check_sentence_for_keywords_verdict [of "''reports Heavy Drinking''"
        "[(word_pattern [''etoh''], ''etoh''), (word_pattern [''heavy drinking''], ''heavy_drinking'')]"
        negation_pattern context_filter_pattern legal_admin_filter_pattern]
    unfolding c using denies_sentence reports_sentence by simp
qed

lemma check_finite: "finite (fst (check_sentence_for_keywords s pats neg ctx legal))"
  using finite_matching_roots [of pats s]
  by (simp add: check_sentence_for_keywords_def fold_add_roots Let_def)

lemma check_valid_iff:
  "snd (check_sentence_for_keywords s pats neg ctx legal)
     \<longleftrightarrow> fst (check_sentence_for_keywords s pats neg ctx legal) \<noteq> {}"
  using finite_matching_roots [of pats s]
  by (simp add: check_sentence_for_keywords_def fold_add_roots card_gt_0_iff del: insert_iff)

section \<open>Properties of the note classifier\<close>

lemma sentence_step_eq:
  "sentence_step pats neg ctx legal raw (A, ms) =
     (if 10 \<le> length (strip raw)
      then (A \<union> fst (check_sentence_for_keywords (strip raw) pats neg ctx legal),
            if snd (check_sentence_for_keywords (strip raw) pats neg ctx legal)
            then ms @ [strip raw] else ms)
      else (A, ms))"
proof (cases "check_sentence_for_keywords (strip raw) pats neg ctx legal")
  case (Pair roots is_valid)
  with check_valid_iff [of "strip raw" pats neg ctx legal]
  have "is_valid \<longleftrightarrow> roots \<noteq> {}" by simp
  with Pair show ?thesis
    by (auto simp: sentence_step_def Let_def)
qed

lemma fold_sentence_step:
  "fold (sentence_step pats neg ctx legal) raws (A, ms) =
     (A \<union> (\<Union>s\<in>set (filter (\<lambda>s. 10 \<le> length s) (map strip raws)).
              fst (check_sentence_for_keywords s pats neg ctx legal)),
      ms @ filter (\<lambda>s. snd (check_sentence_for_keywords s pats neg ctx legal))
             (filter (\<lambda>s. 10 \<le> length s) (map strip raws)))"
proof (induction raws arbitrary: A ms)
  case Nil
  show ?case by simp
next
  case (Cons raw raws)
  show ?case
    by (simp add: sentence_step_eq Cons.IH Un_assoc)
qed

lemma process_note_text_Str:
  assumes "t \<noteq> []"
  shows "process_note_text order (Str t) pats neg ctx legal =
           Inr (order (\<Union>s\<in>set (classified_sentences t).
                         fst (check_sentence_for_keywords s pats neg ctx legal)),
                card (\<Union>s\<in>set (classified_sentences t).
                         fst (check_sentence_for_keywords s pats neg ctx legal)),
                filter (\<lambda>s. snd (check_sentence_for_keywords s pats neg ctx legal))
                  (classified_sentences t))"
  using assms
  by (simp add: process_note_text_def fold_sentence_step classified_sentences_def Let_def)

lemma filter_dropWhile_terminator:
  "filter (\<lambda>c. \<not> is_terminator c) (dropWhile is_terminator cs) = filter (\<lambda>c. \<not> is_terminator c) cs"
  by (induction cs) auto

lemma re_split_not_Nil: "re_split t \<noteq> []"
  by (induction t rule: re_split.induct) (auto split: list.splits)

lemma re_split_pieces:
  "\<forall>p\<in>set (re_split t). \<forall>c\<in>set p. \<not> is_terminator c"
proof (induction t rule: re_split.induct)
  case 1
  show ?case by simp
next
  case (2 d ds)
  show ?case
  proof (cases "is_terminator d")
    case True
    with 2 show ?thesis by simp
  next
    case False
    obtain q qs where q: "re_split ds = q # qs"
      using re_split_not_Nil [of ds] by (cases "re_split ds") auto
    with 2(2) [OF False] False show ?thesis by simp
  qed
qed

lemma re_split_concat:
  "concat (re_split t) = filter (\<lambda>c. \<not> is_terminator c) t"
proof (induction t rule: re_split.induct)
  case 1
  show ?case by simp
next
  case (2 d ds)
  show ?case
  proof (cases "is_terminator d")
    case True
    with 2 show ?thesis by (simp add: filter_dropWhile_terminator)
  next
    case False
    obtain q qs where q: "re_split ds = q # qs"
      using re_split_not_Nil [of ds] by (cases "re_split ds") auto
    with 2 False show ?thesis by simp
  qed
qed

lemma re_split_inner:
  "(\<forall>p\<in>set (butlast (tl (re_split t))). p \<noteq> [])
   \<and> (t \<noteq> [] \<and> \<not> is_terminator (hd t) \<longrightarrow> hd (re_split t) \<noteq> [])"
proof (induction t rule: re_split.induct)
  case 1
  show ?case by simp
next
  case (2 d ds)
  show ?case
  proof (cases "is_terminator d")
    case True
    let ?r = "dropWhile is_terminator ds"
    obtain q qs where q: "re_split ?r = q # qs"
      using re_split_not_Nil [of ?r] by (cases "re_split ?r") auto
    have hd_r: "?r \<noteq> [] \<Longrightarrow> \<not> is_terminator (hd ?r)"
      by (rule hd_dropWhile)
    have "\<forall>p\<in>set (butlast (q # qs)). p \<noteq> []"
    proof (cases "?r = []")
      case True
      with q show ?thesis by simp
    next
      case False
      with 2(1) [OF True] hd_r q have "q \<noteq> []" "\<forall>p\<in>set (butlast qs). p \<noteq> []"
        by auto
      then show ?thesis by (auto split: if_splits)
    qed
    with True q show ?thesis by simp
  next
    case False
    obtain q qs where q: "re_split ds = q # qs"
      using re_split_not_Nil [of ds] by (cases "re_split ds") auto
    with 2(2) [OF False] False show ?thesis by simp
  qed
qed

lemma is_terminator_iff:
  "is_terminator c \<longleftrightarrow> c \<in> {CHR ''.'', CHR ''!'', CHR ''?'', CHR '';'', CHR '':'', CHR 0x0A}"
  by (simp add: is_terminator_def)

lemma is_space_iff:
  "is_space c \<longleftrightarrow> (of_char c :: nat) \<in> {9, 10, 11, 12, 13, 28, 29, 30, 31, 32, 133, 160}"
  unfolding is_space_def Let_def by (simp; arith)

text \<open>
  The pieces of the split alternate with runs of terminators: woven together with the
  runs between them, they give the text back.
\<close>

lemma re_split_seps:
  "\<exists>seps. length seps + 1 = length (re_split t)
      \<and> (\<forall>s\<in>set seps. s \<noteq> [] \<and> (\<forall>c\<in>set s. is_terminator c))
      \<and> concat (splice (re_split t) seps) = t"
proof (induction t rule: re_split.induct)
  case 1
  have "length ([] :: string list) + 1 = length (re_split [])
      \<and> (\<forall>s\<in>set ([] :: string list). s \<noteq> [] \<and> (\<forall>c\<in>set s. is_terminator c))
      \<and> concat (splice (re_split []) []) = []"
    by simp
  then show ?case by blast
next
  case (2 d ds)
  show ?case
  proof (cases "is_terminator d")
    case True
    let ?r = "dropWhile is_terminator ds"
    from 2(1) [OF True] obtain seps where seps: "length seps + 1 = length (re_split ?r)"
      "\<forall>s\<in>set seps. s \<noteq> [] \<and> (\<forall>c\<in>set s. is_terminator c)"
      "concat (splice (re_split ?r) seps) = ?r"
      by blast
    let ?s = "d # takeWhile is_terminator ds"
    have run: "\<forall>c\<in>set ?s. is_terminator c"
      using True by (auto dest: set_takeWhileD)
    have "length (?s # seps) + 1 = length (re_split (d # ds))"
      using True seps(1) by simp
    moreover have "\<forall>s\<in>set (?s # seps). s \<noteq> [] \<and> (\<forall>c\<in>set s. is_terminator c)"
      using run seps(2) by simp
    moreover have "concat (splice (re_split (d # ds)) (?s # seps)) = d # ds"
      using True seps(3) by simp
    ultimately show ?thesis by blast
  next
    case False
    obtain q qs where q: "re_split ds = q # qs"
      using re_split_not_Nil [of ds] by (cases "re_split ds") auto
    from 2(2) [OF False] obtain seps where seps: "length seps + 1 = length (re_split ds)"
      "\<forall>s\<in>set seps. s \<noteq> [] \<and> (\<forall>c\<in>set s. is_terminator c)"
      "concat (splice (re_split ds) seps) = ds"
      by blast
    have "length seps + 1 = length (re_split (d # ds))"
      using False q seps(1) by simp
    moreover have "concat (splice (re_split (d # ds)) seps) = d # ds"
      using False q seps(3) by simp
    ultimately show ?thesis using seps(2) by blast
  qed
qed

lemma re_split_append_plain:
  "\<forall>c\<in>set p. \<not> is_terminator c \<Longrightarrow>
     re_split (p @ r) = (p @ hd (re_split r)) # tl (re_split r)"
proof (induction p)
  case Nil
  show ?case using re_split_not_Nil [of r] by simp
next
  case (Cons a p)
  then show ?case by simp
qed

lemma re_split_run:
  assumes "s \<noteq> []" and "\<forall>c\<in>set s. is_terminator c"
  shows "re_split (s @ r) = [] # re_split (dropWhile is_terminator r)"
proof -
  from assms obtain c s' where s: "s = c # s'" by (cases s) auto
  with assms(2) have "dropWhile is_terminator (s' @ r) = dropWhile is_terminator r"
    by (simp add: dropWhile_append2)
  with s assms(2) show ?thesis by simp
qed

text \<open>
  Only one list of pieces has these properties: a list of pieces without terminators,
  none of them empty but perhaps the first and the last, woven with non-empty runs of
  terminators, is the split of the text it gives.
\<close>

lemma split_unique:
  assumes "length seps + 1 = length ps"
    and "\<forall>s\<in>set seps. s \<noteq> [] \<and> (\<forall>c\<in>set s. is_terminator c)"
    and "\<forall>p\<in>set ps. \<forall>c\<in>set p. \<not> is_terminator c"
    and "\<forall>p\<in>set (butlast (tl ps)). p \<noteq> []"
  shows "re_split (concat (splice ps seps)) = ps"
  using assms
proof (induction ps arbitrary: seps)
  case Nil
  then show ?case by simp
next
  case (Cons p ps')
  have plain: "\<forall>c\<in>set p. \<not> is_terminator c" using Cons.prems(3) by simp
  show ?case
  proof (cases seps)
    case Nil
    with Cons.prems(1) have "ps' = []" by simp
    with Nil re_split_append_plain [OF plain, of "[]"] show ?thesis by simp
  next
    case (Cons s ss)
    with Cons.prems(1) obtain p' ps'' where ps': "ps' = p' # ps''"
      by (cases ps') auto
    let ?rest = "concat (splice ps' ss)"
    have s: "s \<noteq> []" "\<forall>c\<in>set s. is_terminator c"
      using Cons.prems(2) Cons by simp_all
    have inner: "\<forall>q\<in>set (butlast ps'). q \<noteq> []"
      using Cons.prems(4) by simp
    have "\<forall>q\<in>set (butlast (tl ps')). q \<noteq> []"
      using inner ps' by (cases "ps'' = []") auto
    with Cons.IH [of ss] Cons.prems(1,2,3) Cons
    have ih: "re_split ?rest = ps'" by simp
    have "re_split (dropWhile is_terminator ?rest) = ps'"
    proof (cases "p' = []")
      case True
      with inner ps' have "ps'' = []" by (cases ps'') auto
      with ps' True Cons.prems(1) Cons show ?thesis by simp
    next
      case False
      then obtain a p'' where "p' = a # p''" by (cases p') auto
      moreover with Cons.prems(3) ps' have "\<not> is_terminator a" by simp
      ultimately have "dropWhile is_terminator ?rest = ?rest"
        using ps' by simp
      with ih show ?thesis by simp
    qed
    with re_split_run [OF s, of ?rest] have "re_split (s @ ?rest) = [] # ps'" by simp
    with re_split_append_plain [OF plain, of "s @ ?rest"] Cons show ?thesis by simp
  qed
qed

text \<open>
  \<open>strip\<close> takes whitespace, and nothing else, from both ends: what it leaves is
  empty or begins and ends with a character that is not whitespace.
\<close>

lemma strip_decomposition:
  "\<exists>l r. s = l @ strip s @ r \<and> (\<forall>c\<in>set (l @ r). is_space c)
       \<and> (strip s \<noteq> [] \<longrightarrow> \<not> is_space (hd (strip s)) \<and> \<not> is_space (last (strip s)))"
proof -
  let ?u = "dropWhile is_space s"
  let ?l = "takeWhile is_space s"
  let ?r = "rev (takeWhile is_space (rev ?u))"
  have u: "?u = strip s @ ?r"
  proof -
    have "rev (takeWhile is_space (rev ?u) @ dropWhile is_space (rev ?u)) = ?u"
      by (simp only: takeWhile_dropWhile_id rev_rev_ident)
    then have "rev (dropWhile is_space (rev ?u)) @ rev (takeWhile is_space (rev ?u)) = ?u"
      by (simp only: rev_append)
    then show ?thesis by (simp only: strip_def)
  qed
  have "s = ?l @ ?u" by simp
  with u have dec: "s = ?l @ strip s @ ?r" by simp
  have sp: "\<forall>c\<in>set (?l @ ?r). is_space c"
    by (auto dest: set_takeWhileD)
  have ends: "\<not> is_space (hd (strip s)) \<and> \<not> is_space (last (strip s))" if ne: "strip s \<noteq> []"
  proof
    from ne have "dropWhile is_space (rev ?u) \<noteq> []" by (simp add: strip_def)
    then have "\<not> is_space (hd (dropWhile is_space (rev ?u)))" by (rule hd_dropWhile)
    with ne show "\<not> is_space (last (strip s))"
      by (simp add: strip_def last_rev)
    from ne u have "?u \<noteq> []" by (metis append_is_Nil_conv)
    then have "\<not> is_space (hd ?u)" by (rule hd_dropWhile)
    moreover from u ne have "hd ?u = hd (strip s)" by (metis hd_append2)
    ultimately show "\<not> is_space (hd (strip s))" by simp
  qed
  from dec sp ends show ?thesis by blast
qed

lemma etoh_pieces:
  "re_split ''ETOH.  Reports heavy drinking ! '' = [''ETOH'', ''  Reports heavy drinking '', '' '']"
  "map strip [''ETOH'', ''  Reports heavy drinking '', '' ''] = [''ETOH'', ''Reports heavy drinking'', '''']"
  "search (word_pattern [''etoh'']) ''ETOH''"
  "check_sentence_for_keywords ''Reports heavy drinking''
      [(word_pattern [''etoh''], ''etoh''), (word_pattern [''heavy drinking''], ''heavy_drinking'')]
      negation_pattern context_filter_pattern legal_admin_filter_pattern
     = ({''heavy_drinking''}, True)"
  by code_simp+

lemma iteration_law_sorted: "iteration_law sorted_list_of_set"
  by (simp add: iteration_law_def)

lemma iteration_law_rev_sorted: "iteration_law (rev \<circ> sorted_list_of_set)"
  by (simp add: iteration_law_def)

text \<open>
  C7. The text of a note is split at every run of one or more of the terminators
  \<open>. ! ? ; :\<close> and newline: the pieces, woven with non-empty runs of these six
  characters, give the text back; no piece holds one of the six; and no piece between
  the first and the last is empty. Each piece is trimmed: it is the stripped piece
  between whitespace on the left and on the right, and the stripped piece, unless empty,
  begins and ends with a character that is not whitespace. Only the stripped pieces of
  length 10 or more are classified: the matched sentences are exactly the valid ones
  among them, in order of appearance, and the roots are those of these sentences. A
  stripped piece of fewer than 10 characters never reaches the classifier, whatever it
  contains.
\<close>

theorem process_note_text_sentences:
  assumes "t \<noteq> []"
  shows "(\<exists>seps. length seps + 1 = length (re_split t)
            \<and> (\<forall>s\<in>set seps. s \<noteq> []
                  \<and> set s \<subseteq> {CHR ''.'', CHR ''!'', CHR ''?'', CHR '';'', CHR '':'', CHR 0x0A})
            \<and> concat (splice (re_split t) seps) = t)
         \<and> (\<forall>p\<in>set (re_split t).
               set p \<inter> {CHR ''.'', CHR ''!'', CHR ''?'', CHR '';'', CHR '':'', CHR 0x0A} = {})
         \<and> (\<forall>p\<in>set (butlast (tl (re_split t))). p \<noteq> [])
         \<and> (\<forall>p\<in>set (re_split t). \<exists>l r. p = l @ strip p @ r
               \<and> (\<forall>c\<in>set (l @ r).
                     (of_char c :: nat) \<in> {9, 10, 11, 12, 13, 28, 29, 30, 31, 32, 133, 160})
               \<and> (strip p \<noteq> [] \<longrightarrow>
                     (of_char (hd (strip p)) :: nat)
                        \<notin> {9, 10, 11, 12, 13, 28, 29, 30, 31, 32, 133, 160}
                     \<and> (of_char (last (strip p)) :: nat)
                        \<notin> {9, 10, 11, 12, 13, 28, 29, 30, 31, 32, 133, 160}))
         \<and> process_note_text order (Str t) pats neg ctx legal =
             Inr (order (\<Union>s\<in>set (filter (\<lambda>s. 10 \<le> length s) (map strip (re_split t))).
                           fst (check_sentence_for_keywords s pats neg ctx legal)),
                  card (\<Union>s\<in>set (filter (\<lambda>s. 10 \<le> length s) (map strip (re_split t))).
                           fst (check_sentence_for_keywords s pats neg ctx legal)),
                  filter (\<lambda>s. snd (check_sentence_for_keywords s pats neg ctx legal))
                    (filter (\<lambda>s. 10 \<le> length s) (map strip (re_split t))))"
proof (intro conjI)
  from re_split_seps [of t]
  show "\<exists>seps. length seps + 1 = length (re_split t)
            \<and> (\<forall>s\<in>set seps. s \<noteq> []
                  \<and> set s \<subseteq> {CHR ''.'', CHR ''!'', CHR ''?'', CHR '';'', CHR '':'', CHR 0x0A})
            \<and> concat (splice (re_split t) seps) = t"
    unfolding is_terminator_iff subset_eq by assumption
next
  from re_split_pieces [of t]
  show "\<forall>p\<in>set (re_split t).
          set p \<inter> {CHR ''.'', CHR ''!'', CHR ''?'', CHR '';'', CHR '':'', CHR 0x0A} = {}"
    unfolding is_terminator_iff by blast
next
  from re_split_inner [of t]
  show "\<forall>p\<in>set (butlast (tl (re_split t))). p \<noteq> []" by blast
next
  show "\<forall>p\<in>set (re_split t). \<exists>l r. p = l @ strip p @ r
               \<and> (\<forall>c\<in>set (l @ r).
                     (of_char c :: nat) \<in> {9, 10, 11, 12, 13, 28, 29, 30, 31, 32, 133, 160})
               \<and> (strip p \<noteq> [] \<longrightarrow>
                     (of_char (hd (strip p)) :: nat)
                        \<notin> {9, 10, 11, 12, 13, 28, 29, 30, 31, 32, 133, 160}
                     \<and> (of_char (last (strip p)) :: nat)
                        \<notin> {9, 10, 11, 12, 13, 28, 29, 30, 31, 32, 133, 160})"
    using strip_decomposition unfolding is_space_iff by blast
next
  from process_note_text_Str [OF assms, of order pats neg ctx legal]
  show "process_note_text order (Str t) pats neg ctx legal =
             Inr (order (\<Union>s\<in>set (filter (\<lambda>s. 10 \<le> length s) (map strip (re_split t))).
                           fst (check_sentence_for_keywords s pats neg ctx legal)),
                  card (\<Union>s\<in>set (filter (\<lambda>s. 10 \<le> length s) (map strip (re_split t))).
                           fst (check_sentence_for_keywords s pats neg ctx legal)),
                  filter (\<lambda>s. snd (check_sentence_for_keywords s pats neg ctx legal))
                    (filter (\<lambda>s. 10 \<le> length s) (map strip (re_split t))))"
    unfolding classified_sentences_def by assumption
qed

theorem process_note_text_sentences_witness:
  "process_note_text sorted_list_of_set (Str ''ETOH.  Reports heavy drinking ! '')
      [(word_pattern [''etoh''], ''etoh''), (word_pattern [''heavy drinking''], ''heavy_drinking'')]
      negation_pattern context_filter_pattern legal_admin_filter_pattern
     = Inr ([''heavy_drinking''], 1, [''Reports heavy drinking''])
   \<and> search (word_pattern [''etoh'']) ''ETOH''"
proof -
  have ne: "''ETOH.  Reports heavy drinking ! '' \<noteq> []" by simp
  have "process_note_text sorted_list_of_set (Str ''ETOH.  Reports heavy drinking ! '')
      [(word_pattern [''etoh''], ''etoh''), (word_pattern [''heavy drinking''], ''heavy_drinking'')]
      negation_pattern context_filter_pattern legal_admin_filter_pattern
     = Inr ([''heavy_drinking''], 1, [''Reports heavy drinking''])"
    using process_note_text_sentences [OF ne, of sorted_list_of_set
        "[(word_pattern [''etoh''], ''etoh''), (word_pattern [''heavy drinking''], ''heavy_drinking'')]"
        negation_pattern context_filter_pattern legal_admin_filter_pattern,
        THEN conjunct2, THEN conjunct2, THEN conjunct2, THEN conjunct2]
    unfolding etoh_pieces(1) etoh_pieces(2)
    by (simp add: etoh_pieces(4))
  with etoh_pieces(3) show ?thesis by simp
qed

lemma process_note_text_cases:
  "(\<exists>x. \<forall>order. process_note_text order report_text pats neg ctx legal = Inl x)
   \<or> (\<exists>S sents. finite S
          \<and> (\<forall>order. iteration_law order \<longrightarrow>
                process_note_text order report_text pats neg ctx legal = Inr (order S, card S, sents)))"
proof (cases report_text)
  case Null
  have "\<forall>order. iteration_law order \<longrightarrow>
          process_note_text order report_text pats neg ctx legal = Inr (order {}, card {}, [])"
    using Null by (auto simp: process_note_text_def iteration_law_def)
  then show ?thesis by blast
next
  case (Num n)
  show ?thesis
  proof (cases "n = 0")
    case True
    have "\<forall>order. iteration_law order \<longrightarrow>
            process_note_text order report_text pats neg ctx legal = Inr (order {}, card {}, [])"
      using Num True by (auto simp: process_note_text_def iteration_law_def)
    then show ?thesis by blast
  next
    case False
    with Num show ?thesis by (simp add: process_note_text_def)
  qed
next
  case (Str t)
  show ?thesis
  proof (cases "t = []")
    case True
    have "\<forall>order. iteration_law order \<longrightarrow>
            process_note_text order report_text pats neg ctx legal = Inr (order {}, card {}, [])"
      using Str True by (auto simp: process_note_text_def iteration_law_def)
    then show ?thesis by blast
  next
    case False
    let ?S = "\<Union>s\<in>set (classified_sentences t).
                 fst (check_sentence_for_keywords s pats neg ctx legal)"
    have "finite ?S" by (simp add: check_finite)
    with Str process_note_text_Str [OF False, of _ pats neg ctx legal] show ?thesis
      by blast
  qed
qed

lemma two_roots_sorted:
  "process_note_text sorted_list_of_set (Str ''reports heavy drinking. alcoholism noted'')
      two_patterns negation_pattern context_filter_pattern legal_admin_filter_pattern
   = Inr ([''alcoholism'', ''heavy_drinking''], 2, [''reports heavy drinking'', ''alcoholism noted''])"
  by code_simp

lemma two_roots_rev:
  "process_note_text (rev \<circ> sorted_list_of_set) (Str ''reports heavy drinking. alcoholism noted'')
      two_patterns negation_pattern context_filter_pattern legal_admin_filter_pattern
   = Inr ([''heavy_drinking'', ''alcoholism''], 2, [''reports heavy drinking'', ''alcoholism noted''])"
  by code_simp

text \<open>
  C8, as stated, fails: the same note and the same patterns give \<open>aud_roots\<close> in two
  different orders under two iteration orders of the set, both of which list every
  element exactly once.
\<close>

theorem aud_roots_order_counterexample:
  "iteration_law sorted_list_of_set \<and> iteration_law (rev \<circ> sorted_list_of_set)
   \<and> process_note_text sorted_list_of_set (Str ''reports heavy drinking. alcoholism noted'')
        two_patterns negation_pattern context_filter_pattern legal_admin_filter_pattern
      = Inr ([''alcoholism'', ''heavy_drinking''], 2,
             [''reports heavy drinking'', ''alcoholism noted''])
   \<and> process_note_text (rev \<circ> sorted_list_of_set)
        (Str ''reports heavy drinking. alcoholism noted'')
        two_patterns negation_pattern context_filter_pattern legal_admin_filter_pattern
      = Inr ([''heavy_drinking'', ''alcoholism''], 2,
             [''reports heavy drinking'', ''alcoholism noted''])"
  using iteration_law_sorted iteration_law_rev_sorted two_roots_sorted two_roots_rev
  by (intro conjI)

text \<open>
  C8, amended. Two runs on the same note and patterns, each with its own iteration order
  of sets, either raise the same exception or return the same count, the same matched
  sentences in the same order, and as \<open>aud_roots\<close> a listing without repetition of one
  and the same set of roots, each run in its own order.
\<close>

theorem process_note_text_up_to_order:
  assumes "iteration_law o1" and "iteration_law o2"
  shows "(\<exists>x. process_note_text o1 report_text pats neg ctx legal = Inl x
            \<and> process_note_text o2 report_text pats neg ctx legal = Inl x)
         \<or> (\<exists>S sents. finite S
              \<and> process_note_text o1 report_text pats neg ctx legal = Inr (o1 S, card S, sents)
              \<and> process_note_text o2 report_text pats neg ctx legal = Inr (o2 S, card S, sents)
              \<and> set (o1 S) = set (o2 S) \<and> distinct (o1 S) \<and> distinct (o2 S))"
proof -
  from process_note_text_cases [of report_text pats neg ctx legal]
  show ?thesis
  proof
    assume "\<exists>x. \<forall>order. process_note_text order report_text pats neg ctx legal = Inl x"
    then show ?thesis by blast
  next
    assume "\<exists>S sents. finite S \<and> (\<forall>order. iteration_law order \<longrightarrow>
                process_note_text order report_text pats neg ctx legal = Inr (order S, card S, sents))"
    then obtain S sents where S: "finite S"
      and r: "\<And>order. iteration_law order \<Longrightarrow>
                process_note_text order report_text pats neg ctx legal = Inr (order S, card S, sents)"
      by blast
    from assms S have "set (o1 S) = S" "set (o2 S) = S" "distinct (o1 S)" "distinct (o2 S)"
      by (simp_all add: iteration_law_def)
    with S r [OF assms(1)] r [OF assms(2)] show ?thesis by auto
  qed
qed

theorem process_note_text_up_to_order_witness:
  "iteration_law sorted_list_of_set \<and> iteration_law (rev \<circ> sorted_list_of_set)
   \<and> (\<exists>S sents. finite S
         \<and> process_note_text sorted_list_of_set (Str ''reports heavy drinking. alcoholism noted'')
              two_patterns negation_pattern context_filter_pattern legal_admin_filter_pattern
            = Inr (sorted_list_of_set S, card S, sents)
         \<and> process_note_text (rev \<circ> sorted_list_of_set)
              (Str ''reports heavy drinking. alcoholism noted'')
              two_patterns negation_pattern context_filter_pattern legal_admin_filter_pattern
            = Inr ((rev \<circ> sorted_list_of_set) S, card S, sents)
         \<and> set (sorted_list_of_set S) = set ((rev \<circ> sorted_list_of_set) S))"
proof -
  from process_note_text_up_to_order [OF iteration_law_sorted iteration_law_rev_sorted,
      of "Str ''reports heavy drinking. alcoholism noted''" two_patterns negation_pattern
         context_filter_pattern legal_admin_filter_pattern]
  have "\<exists>S sents. finite S
         \<and> process_note_text sorted_list_of_set (Str ''reports heavy drinking. alcoholism noted'')
              two_patterns negation_pattern context_filter_pattern legal_admin_filter_pattern
            = Inr (sorted_list_of_set S, card S, sents)
         \<and> process_note_text (rev \<circ> sorted_list_of_set)
              (Str ''reports heavy drinking. alcoholism noted'')
              two_patterns negation_pattern context_filter_pattern legal_admin_filter_pattern
            = Inr ((rev \<circ> sorted_list_of_set) S, card S, sents)
         \<and> set (sorted_list_of_set S) = set ((rev \<circ> sorted_list_of_set) S)"
    unfolding two_roots_sorted by blast
  with iteration_law_sorted iteration_law_rev_sorted show ?thesis by (intro conjI)
qed

lemma process_note_text_count:
  assumes "iteration_law order"
    and "process_note_text order report_text pats neg ctx legal = Inr (roots, n, sents)"
  shows "n = length roots"
proof -
  from process_note_text_cases [of report_text pats neg ctx legal] assms(2)
  obtain S sents' where S: "finite S"
    and r: "\<And>order. iteration_law order \<Longrightarrow>
              process_note_text order report_text pats neg ctx legal = Inr (order S, card S, sents')"
    by auto
  from r [OF assms(1)] assms(2) have "roots = order S" "n = card S" by simp_all
  moreover from assms(1) S have "set (order S) = S" "distinct (order S)"
    by (simp_all add: iteration_law_def)
  ultimately show ?thesis by (simp add: distinct_card [symmetric])
qed

lemma note_loop_acc:
  "note_loop order pats df (rs, m) = Inr (results, k) \<Longrightarrow>
     results = rs @ concat (map (rows_of_note order pats) df)
     \<and> k = m + length (concat (map (rows_of_note order pats) df))
     \<and> (\<forall>row\<in>set df. \<exists>v. process_note_text order (REPORT_TEXT row) pats negation_pattern
             context_filter_pattern legal_admin_filter_pattern = Inr v)"
proof (induction df arbitrary: rs m)
  case Nil
  then show ?case by simp
next
  case (Cons row df)
  show ?case
  proof (cases "process_note_text order (REPORT_TEXT row) pats negation_pattern
             context_filter_pattern legal_admin_filter_pattern")
    case (Inl x)
    with Cons.prems show ?thesis by simp
  next
    case (Inr v)
    obtain roots n sents where v: "v = (roots, n, sents)" by (cases v)
    show ?thesis
    proof (cases "0 < n")
      case True
      with Cons.prems Inr v have
        "note_loop order pats df
           (rs @ [\<lparr>person_id = OMOP_PERSON_ID row, note_id = ENCOUNTER_ID row,
                    note_date = PHYSIOLOGIC_TIME row, aud_roots = roots,
                    aud_roots_count = n, matched_sentences = sents\<rparr>], m + 1)
         = Inr (results, k)"
        by simp
      from Cons.IH [OF this] True Inr v show ?thesis
        by (simp add: rows_of_note_def)
    next
      case False
      with Cons.prems Inr v have "note_loop order pats df (rs, m) = Inr (results, k)"
        by simp
      from Cons.IH [OF this] False Inr v show ?thesis
        by (simp add: rows_of_note_def)
    qed
  qed
qed

lemma rows_of_note_count:
  assumes "iteration_law order" and "r \<in> set (rows_of_note order pats row)"
  shows "aud_roots_count r = length (aud_roots r) \<and> 0 < aud_roots_count r"
proof (cases "process_note_text order (REPORT_TEXT row) pats negation_pattern
             context_filter_pattern legal_admin_filter_pattern")
  case (Inl x)
  with assms(2) show ?thesis by (simp add: rows_of_note_def)
next
  case (Inr v)
  obtain roots n sents where v: "v = (roots, n, sents)" by (cases v)
  from process_note_text_count [OF assms(1)] Inr v have "n = length roots" by simp
  with assms(2) Inr v show ?thesis
    by (auto simp: rows_of_note_def split: if_splits)
qed

text \<open>
  C6. In every classification the note classifier returns, \<open>aud_roots_count\<close> is the
  number of elements of \<open>aud_roots\<close>; and the loop over the notes appends a row for a
  note if and only if its \<open>aud_roots_count\<close> is positive: the results are the rows of the
  notes with a positive count, in order, so every row has a positive count that is the
  length of its \<open>aud_roots\<close>.
\<close>

theorem note_loop_rows:
  assumes "iteration_law order"
    and "note_loop order pats df ([], 0) = Inr (results, matched_count)"
  shows "(\<forall>row\<in>set df. \<forall>roots n sents.
            process_note_text order (REPORT_TEXT row) pats negation_pattern
              context_filter_pattern legal_admin_filter_pattern = Inr (roots, n, sents)
            \<longrightarrow> n = length roots
                \<and> (\<lparr>person_id = OMOP_PERSON_ID row, note_id = ENCOUNTER_ID row,
                     note_date = PHYSIOLOGIC_TIME row, aud_roots = roots,
                     aud_roots_count = n, matched_sentences = sents\<rparr> \<in> set results
                   \<longleftrightarrow> 0 < n))
         \<and> (\<forall>r\<in>set results. aud_roots_count r = length (aud_roots r) \<and> 0 < aud_roots_count r)
         \<and> results = concat (map (rows_of_note order pats) df)
         \<and> matched_count = length results"
proof -
  from note_loop_acc [OF assms(2)]
  have res: "results = concat (map (rows_of_note order pats) df)"
    and cnt: "matched_count = length results"
    by simp_all
  have pos: "\<forall>r\<in>set results. aud_roots_count r = length (aud_roots r) \<and> 0 < aud_roots_count r"
  proof
    fix r assume "r \<in> set results"
    then obtain row where "r \<in> set (rows_of_note order pats row)"
      unfolding res by auto
    then show "aud_roots_count r = length (aud_roots r) \<and> 0 < aud_roots_count r"
      by (rule rows_of_note_count [OF assms(1)])
  qed
  have "\<forall>row\<in>set df. \<forall>roots n sents.
            process_note_text order (REPORT_TEXT row) pats negation_pattern
              context_filter_pattern legal_admin_filter_pattern = Inr (roots, n, sents)
            \<longrightarrow> n = length roots
                \<and> (\<lparr>person_id = OMOP_PERSON_ID row, note_id = ENCOUNTER_ID row,
                     note_date = PHYSIOLOGIC_TIME row, aud_roots = roots,
                     aud_roots_count = n, matched_sentences = sents\<rparr> \<in> set results
                   \<longleftrightarrow> 0 < n)"
  proof (intro ballI allI impI conjI)
    fix row roots n sents
    assume row: "row \<in> set df"
      and p: "process_note_text order (REPORT_TEXT row) pats negation_pattern
              context_filter_pattern legal_admin_filter_pattern = Inr (roots, n, sents)"
    let ?r = "\<lparr>person_id = OMOP_PERSON_ID row, note_id = ENCOUNTER_ID row,
                note_date = PHYSIOLOGIC_TIME row, aud_roots = roots,
                aud_roots_count = n, matched_sentences = sents\<rparr>"
    show "n = length roots"
      by (rule process_note_text_count [OF assms(1) p])
    show "?r \<in> set results \<longleftrightarrow> 0 < n"
    proof
      assume "?r \<in> set results"
      with pos have "0 < aud_roots_count ?r" by blast
      then show "0 < n" by simp
    next
      assume "0 < n"
      with p have "rows_of_note order pats row = [?r]"
        by (simp add: rows_of_note_def)
      with row show "?r \<in> set results"
        unfolding res by force
    qed
  qed
  with pos res cnt show ?thesis by blast
qed

lemma loop_three_notes:
  "note_loop sorted_list_of_set two_patterns [note1, note3, note2] ([], 0)
     = Inr ([row1, row2], 2)"
  by code_simp

theorem note_loop_rows_witness:
  "iteration_law sorted_list_of_set
   \<and> note_loop sorted_list_of_set two_patterns [note1, note3, note2] ([], 0)
       = Inr ([row1, row2], 2)
   \<and> aud_roots_count row1 = length (aud_roots row1) \<and> 0 < aud_roots_count row1
   \<and> aud_roots_count row2 = length (aud_roots row2) \<and> 0 < aud_roots_count row2
   \<and> [row1, row2] = concat (map (rows_of_note sorted_list_of_set two_patterns) [note1, note3, note2])"
proof -
  from note_loop_rows [OF iteration_law_sorted loop_three_notes]
  have a: "\<forall>r\<in>set [row1, row2]. aud_roots_count r = length (aud_roots r) \<and> 0 < aud_roots_count r"
    and b: "[row1, row2]
              = concat (map (rows_of_note sorted_list_of_set two_patterns) [note1, note3, note2])"
    by blast+
  have "row1 \<in> set [row1, row2]" "row2 \<in> set [row1, row2]" by simp_all
  with a have "aud_roots_count row1 = length (aud_roots row1)" "0 < aud_roots_count row1"
    "aud_roots_count row2 = length (aud_roots row2)" "0 < aud_roots_count row2"
    by blast+
  with iteration_law_sorted loop_three_notes b show ?thesis by (intro conjI)
qed

section \<open>Properties of the partition processor\<close>

lemma out_d1:
  "output_file_of ''/notes/d1/part-0.parquet'' = ''results/intermediate_keywords/d1_results.csv''"
  "output_file_of ''/notes/d1/part-1.parquet'' = ''results/intermediate_keywords/d1_results.csv''"
  "basename (dirname ''/notes/d1/part-0.parquet'') = ''d1''"
  by code_simp+

lemma note_loop_count:
  "note_loop order pats df ([], 0) = Inr (results, matched_count) \<Longrightarrow> matched_count = length results"
  using note_loop_acc [of order pats df "[]" 0 results matched_count] by simp

lemma path_exists_to_csv:
  "to_csv e p rows st = (None, st') \<Longrightarrow> path_exists p st'"
  by (auto simp: to_csv_def path_exists_def update_conv' split: option.splits cut.splits)

lemma process_skips:
  "path_exists (output_file_of file_path) st \<Longrightarrow>
     process_single_parquet e (file_path, file_idx, total_files) st
       = ((basename (dirname file_path), SKIPPED, 0, None), st)"
  by (simp add: process_single_parquet_def)

lemma process_written:
  assumes "process_single_parquet e (file_path, file_idx, total_files) st
             = ((name, Matches m, k, None), st')"
    and "0 < m"
  shows "path_exists (output_file_of file_path) st'"
proof (cases "path_exists (output_file_of file_path) st")
  case True
  with assms(1) show ?thesis by (simp add: process_single_parquet_def)
next
  case False
  let ?st1 = "st\<lparr>reads := reads st @ [file_path]\<rparr>"
  from assms(1) False obtain df where df: "parquet e file_path = Inr df"
    by (cases "parquet e file_path") (simp_all add: process_single_parquet_def failed_def)
  from assms(1) False df obtain results matched_count
    where loop: "note_loop (iter_order e) (aud_patterns e) df ([], 0) = Inr (results, matched_count)"
    by (cases "note_loop (iter_order e) (aud_patterns e) df ([], 0)")
       (auto simp: process_single_parquet_def failed_def)
  from note_loop_count [OF loop] have cnt: "matched_count = length results" .
  show ?thesis
  proof (cases "results = []")
    case True
    with assms False df loop cnt show ?thesis
      by (simp add: process_single_parquet_def)
  next
    case ne: False
    obtain w st2 where w: "to_csv e (output_file_of file_path) results ?st1 = (w, st2)"
      by (cases "to_csv e (output_file_of file_path) results ?st1")
    with assms(1) False df loop ne have "w = None" "st2 = st'"
      by (cases w; simp add: process_single_parquet_def failed_def)+
    with w show ?thesis by (simp add: path_exists_to_csv)
  qed
qed

text \<open>Runs of the partition processor on the example corpus.\<close>

lemma run_with_fault:
  "process_single_parquet (example_env one_file size_limit)
       (''/notes/d1/part-0.parquet'', 0, 1) empty_state
     = ((''d1'', Matches 0, 0, Some ''Error: [Errno 27] File too large''), partial_state)"
  by code_simp

lemma run_on_partial:
  "process_single_parquet (example_env one_file no_fault)
       (''/notes/d1/part-0.parquet'', 0, 1) partial_state
     = ((''d1'', SKIPPED, 0, None), partial_state)"
  by code_simp

lemma run_without_fault:
  "process_single_parquet (example_env one_file no_fault)
       (''/notes/d1/part-0.parquet'', 0, 1) empty_state
     = ((''d1'', Matches 2, 2, None), full_state)"
  by code_simp

text \<open>
  C3. When the output file computed for a parquet file exists, \<open>process_single_parquet\<close>
  returns \<open>SKIPPED\<close> and leaves the state as it is: no file is read (the log of reads is
  unchanged) and no file under \<open>results/\<close> changes. In particular, after a run that found
  matches and saved them, a second run on the same file is skipped and the saved
  artifact stays what the first run wrote.
\<close>

theorem skipped_when_output_exists:
  "(path_exists (output_file_of file_path) st \<longrightarrow>
      process_single_parquet e (file_path, file_idx, total_files) st
        = ((basename (dirname file_path), SKIPPED, 0, None), st))
   \<and> (process_single_parquet e (file_path, file_idx, total_files) st
         = ((name, Matches m, k, None), st') \<and> 0 < m \<longrightarrow>
       process_single_parquet e' (file_path, file_idx', total_files') st'
         = ((basename (dirname file_path), SKIPPED, 0, None), st'))"
  using process_skips process_written by blast

theorem skipped_when_output_exists_witness:
  "path_exists (output_file_of ''/notes/d1/part-0.parquet'') partial_state
   \<and> process_single_parquet (example_env one_file no_fault)
        (''/notes/d1/part-0.parquet'', 0, 1) partial_state
      = ((''d1'', SKIPPED, 0, None), partial_state)
   \<and> process_single_parquet (example_env one_file no_fault)
        (''/notes/d1/part-0.parquet'', 0, 1) empty_state
      = ((''d1'', Matches 2, 2, None), full_state)
   \<and> process_single_parquet (example_env one_file size_limit)
        (''/notes/d1/part-0.parquet'', 5, 7) full_state
      = ((''d1'', SKIPPED, 0, None), full_state)"
proof -
  have ex: "path_exists (output_file_of ''/notes/d1/part-0.parquet'') partial_state"
    by code_simp
  note inst = skipped_when_output_exists
    [where file_path = "''/notes/d1/part-0.parquet''" and e = "example_env one_file no_fault"
       and file_idx = 0 and total_files = 1 and name = "''d1''" and m = 2 and k = 2
       and e' = "example_env one_file size_limit" and file_idx' = 5 and total_files' = 7]
  from inst [where st = partial_state and st' = full_state] ex
  have a: "process_single_parquet (example_env one_file no_fault)
        (''/notes/d1/part-0.parquet'', 0, 1) partial_state
      = ((''d1'', SKIPPED, 0, None), partial_state)"
    by (simp add: out_d1)
  from inst [where st = empty_state and st' = full_state] run_without_fault
  have b: "process_single_parquet (example_env one_file size_limit)
        (''/notes/d1/part-0.parquet'', 5, 7) full_state
      = ((''d1'', SKIPPED, 0, None), full_state)"
    by (simp add: out_d1)
  from ex a run_without_fault b show ?thesis by (intro conjI)
qed

text \<open>
  A failure of \<open>pd.read_parquet\<close> or of the classification of a note happens before
  anything is written: the summary carries the error and no file under \<open>results/\<close>
  changes.
\<close>

lemma failure_before_write:
  assumes "\<not> path_exists (output_file_of file_path) st"
    and "parquet e file_path = Inl x
         \<or> (\<exists>df. parquet e file_path = Inr df
               \<and> note_loop (iter_order e) (aud_patterns e) df ([], 0) = Inl x)"
  shows "process_single_parquet e (file_path, file_idx, total_files) st
           = (failed (basename (dirname file_path)) x, st\<lparr>reads := reads st @ [file_path]\<rparr>)"
  using assms by (auto simp: process_single_parquet_def)

text \<open>
  C2, evaluated on the example corpus. The results are written straight to the output path:
  when the write of the two result rows breaks off after the first, the exception is
  caught and the partition reported as failed, but the output path now holds a file with
  one of the two rows. The next run finds the path and skips the partition, so the
  truncated file stands for the complete result; without the fault the file would
  hold both rows.
\<close>

theorem interrupted_write_leaves_partial_file:
  "process_single_parquet (example_env one_file size_limit)
       (''/notes/d1/part-0.parquet'', 0, 1) empty_state
     = ((''d1'', Matches 0, 0, Some ''Error: [Errno 27] File too large''), partial_state)
   \<and> map_of (files partial_state) ''results/intermediate_keywords/d1_results.csv''
       = Some (Table [row1])
   \<and> process_single_parquet (example_env one_file no_fault)
       (''/notes/d1/part-0.parquet'', 0, 1) partial_state
     = ((''d1'', SKIPPED, 0, None), partial_state)
   \<and> process_single_parquet (example_env one_file no_fault)
       (''/notes/d1/part-0.parquet'', 0, 1) empty_state
     = ((''d1'', Matches 2, 2, None), full_state)
   \<and> map_of (files full_state) ''results/intermediate_keywords/d1_results.csv''
       = Some (Table [row1, row2])"
  using run_with_fault run_on_partial run_without_fault
  by (simp add: partial_state_def full_state_def)

text \<open>
  On a full disk the write leaves a file of zero bytes at the output path: the partition
  is reported as failed, the next run skips it all the same, and the merge finds no
  table in the file.
\<close>

lemma run_on_full_disk:
  "process_single_parquet (example_env one_file full_disk)
       (''/notes/d1/part-0.parquet'', 0, 1) empty_state
     = ((''d1'', Matches 0, 0, Some ''Error: [Errno 28] No space left on device''),
        empty_file_state)"
  "process_single_parquet (example_env one_file no_fault)
       (''/notes/d1/part-0.parquet'', 0, 1) empty_file_state
     = ((''d1'', SKIPPED, 0, None), empty_file_state)"
  "merge_results (example_env one_file no_fault) empty_file_state
     = (Inr No_valid_results, empty_file_state)"
  by code_simp+

section \<open>Properties of the corpus driver and the merge\<close>

lemma note2_matches:
  "rows_of_note sorted_list_of_set two_patterns note2 = [row2]"
  by code_simp

lemma driver_two_files:
  "run_driver (example_env two_files no_fault)
       [''/notes/d1/part-0.parquet'', ''/notes/d1/part-1.parquet''] empty_state
     = (\<lparr>processed_count = 1, skipped_count = 1, total_matches = 1,
         total_notes_processed = 1, errors = []\<rparr>, partial_state)"
  by code_simp

text \<open>
  C4, evaluated on a directory with two parquet files. Both files are given the output
  path of their directory. The first file is processed and its row saved; the second is
  then taken for already processed and skipped without being read, although its note
  matches: the artifact of the directory holds the row of the first file only.
\<close>

theorem second_file_of_directory_skipped:
  "output_file_of ''/notes/d1/part-0.parquet'' = output_file_of ''/notes/d1/part-1.parquet''
   \<and> two_files ''/notes/d1/part-1.parquet'' = Inr [note2]
   \<and> rows_of_note sorted_list_of_set two_patterns note2 = [row2]
   \<and> run_driver (example_env two_files no_fault)
        [''/notes/d1/part-0.parquet'', ''/notes/d1/part-1.parquet''] empty_state
      = (\<lparr>processed_count = 1, skipped_count = 1, total_matches = 1,
          total_notes_processed = 1, errors = []\<rparr>, partial_state)
   \<and> files partial_state = [(''results/intermediate_keywords/d1_results.csv'', Table [row1])]
   \<and> reads partial_state = [''/notes/d1/part-0.parquet'']"
  using note2_matches driver_two_files
  by (simp add: out_d1 two_files_def partial_state_def)

lemma driver_with_fault:
  "run_driver (example_env one_file size_limit) [''/notes/d1/part-0.parquet''] empty_state
     = (\<lparr>processed_count = 0, skipped_count = 0, total_matches = 0,
         total_notes_processed = 0, errors = [''d1: Error: [Errno 27] File too large'']\<rparr>,
        partial_state)"
  by code_simp

lemma merge_partial:
  "merge_results (example_env one_file no_fault) partial_state
     = (Inr (Final_saved [row1]),
        \<lparr>files = [(''results/intermediate_keywords/d1_results.csv'', Table [row1]),
                  (''results/aud_notes_keywords.csv'', Table [row1])],
         reads = [''/notes/d1/part-0.parquet'']\<rparr>)"
  by code_simp

text \<open>
  C5, evaluated on the example corpus. The exception of the broken write is caught, the
  driver records the error and goes on; but the partition that failed has left its
  truncated file in the intermediate directory, and the merge puts its row into the
  final table.
\<close>

theorem failed_partition_in_final_result:
  "run_driver (example_env one_file size_limit) [''/notes/d1/part-0.parquet''] empty_state
     = (\<lparr>processed_count = 0, skipped_count = 0, total_matches = 0,
         total_notes_processed = 0, errors = [''d1: Error: [Errno 27] File too large'']\<rparr>,
        partial_state)
   \<and> fst (merge_results (example_env one_file no_fault) partial_state)
       = Inr (Final_saved [row1])"
  using driver_with_fault merge_partial by simp

text \<open>
  C9, as stated, fails: with no artifact in the intermediate directory the merge section
  raises nothing. It ends normally after printing that no intermediate results were
  found.
\<close>

theorem merge_without_artifacts_counterexample:
  "glob_results empty_state = []
   \<and> merge_results (example_env one_file no_fault) empty_state
       = (Inr No_results_found, empty_state)
   \<and> \<not> isl (fst (merge_results (example_env one_file no_fault) empty_state))"
proof -
  have "merge_results (example_env one_file no_fault) empty_state
          = (Inr No_results_found, empty_state)"
    by code_simp
  moreover have "glob_results empty_state = []" by code_simp
  ultimately show ?thesis by simp
qed

text \<open>
  C9, amended. When no artifact exists in the intermediate directory, the merge section
  ends normally with the message that no intermediate results were found; it writes no
  final table and leaves every file as it is.
\<close>

theorem merge_without_artifacts:
  "glob_results st = [] \<Longrightarrow> merge_results e st = (Inr No_results_found, st)"
  by (simp add: merge_results_def)

theorem merge_without_artifacts_witness:
  "glob_results other_state = []
   \<and> merge_results (example_env one_file size_limit) other_state
       = (Inr No_results_found, other_state)"
proof -
  have g: "glob_results other_state = []" by code_simp
  from merge_without_artifacts [OF g, of "example_env one_file size_limit"] g
  show ?thesis by (intro conjI)
qed

section \<open>Properties of the structured-code cohort filter\<close>

lemma visit_category_iff:
  "visit_category x = Some inpatient \<longleftrightarrow> x = Some 9201"
  "visit_category x = Some outpatient \<longleftrightarrow> x = Some 9202"
  "visit_category x \<noteq> None \<longleftrightarrow> x = Some 9201 \<or> x = Some 9202"
  by (auto simp: visit_category_def split: option.splits)

lemma kept_rows:
  "filter (\<lambda>r. visit_category (visit_concept_id r) \<noteq> None) rows
   = filter (\<lambda>r. visit_concept_id r = Some 9201 \<or> visit_concept_id r = Some 9202) rows"
  by (rule filter_cong) (simp_all only: visit_category_iff)

lemma size_of_kept:
  "length (filter (\<lambda>r. occ_person_id r = p \<and> visit_category (visit_concept_id r) = Some inpatient)
             (filter (\<lambda>r. visit_concept_id r = Some 9201 \<or> visit_concept_id r = Some 9202) rows))
   = rows_with p 9201 rows"
  "length (filter (\<lambda>r. occ_person_id r = p \<and> visit_category (visit_concept_id r) = Some outpatient)
             (filter (\<lambda>r. visit_concept_id r = Some 9201 \<or> visit_concept_id r = Some 9202) rows))
   = rows_with p 9202 rows"
proof -
  have "filter (\<lambda>r. occ_person_id r = p \<and> visit_category (visit_concept_id r) = Some inpatient)
          (filter (\<lambda>r. visit_concept_id r = Some 9201 \<or> visit_concept_id r = Some 9202) rows)
        = filter (\<lambda>r. occ_person_id r = p \<and> visit_concept_id r = Some 9201) rows"
    unfolding filter_filter by (rule filter_cong) (auto simp: visit_category_iff)
  then show "length (filter (\<lambda>r. occ_person_id r = p \<and> visit_category (visit_concept_id r) = Some inpatient)
             (filter (\<lambda>r. visit_concept_id r = Some 9201 \<or> visit_concept_id r = Some 9202) rows))
   = rows_with p 9201 rows"
    by (simp only: rows_with_def)
  have "filter (\<lambda>r. occ_person_id r = p \<and> visit_category (visit_concept_id r) = Some outpatient)
          (filter (\<lambda>r. visit_concept_id r = Some 9201 \<or> visit_concept_id r = Some 9202) rows)
        = filter (\<lambda>r. occ_person_id r = p \<and> visit_concept_id r = Some 9202) rows"
    unfolding filter_filter by (rule filter_cong) (auto simp: visit_category_iff)
  then show "length (filter (\<lambda>r. occ_person_id r = p \<and> visit_category (visit_concept_id r) = Some outpatient)
             (filter (\<lambda>r. visit_concept_id r = Some 9201 \<or> visit_concept_id r = Some 9202) rows))
   = rows_with p 9202 rows"
    by (simp only: rows_with_def)
qed

lemma calculate_visit_counts_eq:
  "calculate_visit_counts rows =
     map (\<lambda>p. \<lparr>cnt_person_id = p, inpatient_count = rows_with p 9201 rows,
                outpatient_count = rows_with p 9202 rows\<rparr>)
         (sort (remdups (map occ_person_id
            (filter (\<lambda>r. visit_concept_id r = Some 9201 \<or> visit_concept_id r = Some 9202) rows))))"
  unfolding calculate_visit_counts_def Let_def kept_rows size_of_kept ..

lemma rows_with_pos:
  "0 < rows_with p v rows \<longleftrightarrow> (\<exists>r\<in>set rows. occ_person_id r = p \<and> visit_concept_id r = Some v)"
  by (auto simp: rows_with_def filter_empty_conv)

text \<open>
  What the code counts are rows. A person is in the filtered output if and only if, among
  the rows of \<open>aud_occurrence\<close>, at least one row of that person has \<open>visit_concept_id\<close>
  9201 or at least two have 9202; rows with any other id, 9203 among them, or with none,
  enter neither count and can be left out without changing the result.
\<close>

lemma cohort_by_rows:
  "(p \<in> cnt_person_id ` set (filter_patients_by_visits (calculate_visit_counts rows))
      \<longleftrightarrow> 1 \<le> rows_with p 9201 rows \<or> 2 \<le> rows_with p 9202 rows)
   \<and> (\<forall>c\<in>set (calculate_visit_counts rows).
          inpatient_count c = rows_with (cnt_person_id c) 9201 rows
          \<and> outpatient_count c = rows_with (cnt_person_id c) 9202 rows)
   \<and> calculate_visit_counts rows
       = calculate_visit_counts
           (filter (\<lambda>r. visit_concept_id r = Some 9201 \<or> visit_concept_id r = Some 9202) rows)"
proof (intro conjI)
  let ?K = "filter (\<lambda>r. visit_concept_id r = Some 9201 \<or> visit_concept_id r = Some 9202) rows"
  have mem: "p \<in> occ_person_id ` set ?K \<longleftrightarrow> 0 < rows_with p 9201 rows \<or> 0 < rows_with p 9202 rows"
    unfolding rows_with_pos by auto
  have "p \<in> cnt_person_id ` set (filter_patients_by_visits (calculate_visit_counts rows))
      \<longleftrightarrow> p \<in> occ_person_id ` set ?K \<and> (1 \<le> rows_with p 9201 rows \<or> 2 \<le> rows_with p 9202 rows)"
    by (auto simp: calculate_visit_counts_eq filter_patients_by_visits_def image_iff)
  with mem show "p \<in> cnt_person_id ` set (filter_patients_by_visits (calculate_visit_counts rows))
      \<longleftrightarrow> 1 \<le> rows_with p 9201 rows \<or> 2 \<le> rows_with p 9202 rows"
    by auto
next
  show "\<forall>c\<in>set (calculate_visit_counts rows).
          inpatient_count c = rows_with (cnt_person_id c) 9201 rows
          \<and> outpatient_count c = rows_with (cnt_person_id c) 9202 rows"
    by (auto simp: calculate_visit_counts_eq)
next
  have "\<And>p v. (v = 9201 \<or> v = 9202) \<Longrightarrow> rows_with p v
          (filter (\<lambda>r. visit_concept_id r = Some 9201 \<or> visit_concept_id r = Some 9202) rows)
        = rows_with p v rows"
    unfolding rows_with_def filter_filter
    by (rule arg_cong [where f = length], rule filter_cong) auto
  then show "calculate_visit_counts rows
       = calculate_visit_counts
           (filter (\<lambda>r. visit_concept_id r = Some 9201 \<or> visit_concept_id r = Some 9202) rows)"
    by (simp add: calculate_visit_counts_eq)
qed

lemma ex_counts:
  "rows_with 1 9201 example_occurrences = 0" "rows_with 1 9202 example_occurrences = 0"
  "rows_with 2 9202 example_occurrences = 2"
  by code_simp+

lemma cohort_by_rows_example:
  "1 \<notin> cnt_person_id ` set (filter_patients_by_visits (calculate_visit_counts example_occurrences))
   \<and> 2 \<in> cnt_person_id ` set (filter_patients_by_visits (calculate_visit_counts example_occurrences))"
  using cohort_by_rows [of 1 example_occurrences, THEN conjunct1]
    cohort_by_rows [of 2 example_occurrences, THEN conjunct1]
  by (simp add: ex_counts)

text \<open>
  C10, evaluated on a person with one outpatient visit. Two diagnoses recorded at the
  same visit are two rows, which the code counts as an \<open>outpatient_count\<close> of 2: the
  person is in the output with no inpatient visit and a single outpatient visit.
\<close>

theorem one_visit_counted_twice:
  "visits_with 2 9201 same_visit_rows = 0
   \<and> visits_with 2 9202 same_visit_rows = 1
   \<and> filter_patients_by_visits (calculate_visit_counts same_visit_rows)
       = [\<lparr>cnt_person_id = 2, inpatient_count = 0, outpatient_count = 2\<rparr>]"
  by code_simp

end
